theory Spec2Isabelle
  imports Main "HOL-Library.Word"
begin

unbundle bit_operations_syntax

section \<open>NotePerfect control-voltage quantizer: the signal pipeline of main.c\<close>

text \<open>
  The firmware's \<open>main\<close> reads one ADC sample per loop iteration, runs it through a
  128-sample moving-average filter with a slope-triggered reset, converts the filtered
  counts to millivolts, quantizes the millivolts to a step number, looks the step up in
  \<open>PWM_Lookup\<close> and drives the PWM, LED and LCD outputs.

  Machine integers are words: \<open>int32\<close> and \<open>uint32\<close> are \<open>32 word\<close>, \<open>int16\<close> and
  \<open>uint16_t\<close> are \<open>16 word\<close>, \<open>uint8\<close> is \<open>8 word\<close>. A signed variable is read with
  \<open>sint\<close>, an unsigned one with \<open>unat\<close>; \<open>+\<close> and \<open>-\<close> wrap around.
\<close>

subsection \<open>The constants of main.c\<close>

definition MAX_SAMPLE :: nat where
  "MAX_SAMPLE = 128"

definition SIGNAL_SLOPE :: int where
  "SIGNAL_SLOPE = 1000"

definition DIV :: nat where
  "DIV = 7"

definition NUMBER_NOTES_PER_VOLT :: "32 word" where
  "NUMBER_NOTES_PER_VOLT = 12"

definition MAX_CONTROL_VOLTAGE :: "32 word" where
  "MAX_CONTROL_VOLTAGE = 5"

definition NUMBER_NOTE_PERFECT_STEPS :: "32 word" where
  "NUMBER_NOTE_PERFECT_STEPS = NUMBER_NOTES_PER_VOLT * MAX_CONTROL_VOLTAGE"

text \<open>
  The operands \<open>12u\<close> and \<open>5u\<close> are \<open>unsigned int\<close>, so the step size and the correction
  window are unsigned 32-bit constants, and every expression that mixes them with an
  \<open>int32\<close> is evaluated in unsigned 32-bit arithmetic.
\<close>

definition NOTEPERFECT_STEP_SIZE_MV :: "32 word" where
  "NOTEPERFECT_STEP_SIZE_MV = (MAX_CONTROL_VOLTAGE * 1000) div NUMBER_NOTE_PERFECT_STEPS"

definition CORRECTION_WINDOW :: "32 word" where
  "CORRECTION_WINDOW = NOTEPERFECT_STEP_SIZE_MV div 4"

definition IN_B :: "8 word" where
  "IN_B = 0"

definition IN_A :: "8 word" where
  "IN_A = 1"

definition BLUE_CTRL :: "8 word" where
  "BLUE_CTRL = 1"

definition RED_CTRL :: "8 word" where
  "RED_CTRL = 2"

definition GREEN_CTRL :: "8 word" where
  "GREEN_CTRL = 4"

definition OFF :: "8 word" where
  "OFF = 0"

definition ON :: "8 word" where
  "ON = 1"

text \<open>The step number lookup table \<open>uint16_t PWM_Lookup[]\<close>.\<close>

definition PWM_Lookup :: "16 word list" where
  "PWM_Lookup =
    [0, 83, 167, 250, 333, 417, 500, 583, 667, 750, 833, 917, 1000,
     1083, 1167, 1250, 1333, 1417, 1500, 1583, 1667, 1750, 1833, 1917, 2000,
     2083, 2167, 2250, 2333, 2417, 2500, 2583, 2667, 2750, 2833, 2917, 3000,
     3083, 3167, 3250, 3333, 3417, 3500, 3583, 3667, 3750, 3833, 3917, 4000,
     4083, 4167, 4250, 4333, 4417, 4500, 4583, 4667, 4750, 4833, 4917, 5000]"

text \<open>
  \<open>PWM_Lookup[i]\<close>: C reads past the end of the array without a check; the model makes
  the out-of-range read the value \<open>None\<close>.
\<close>

definition PWM_Lookup_at :: "32 word \<Rightarrow> 16 word option" where
  "PWM_Lookup_at i =
     (if unat i < length PWM_Lookup then Some (PWM_Lookup ! unat i) else None)"

subsection \<open>The quantizer\<close>

text \<open>
  \<open>notePerfectValue = milliVolts / NOTEPERFECT_STEP_SIZE_MV;
    remainder = milliVolts % NOTEPERFECT_STEP_SIZE_MV;
    if (remainder >= NOTEPERFECT_STEP_SIZE_MV / 2) notePerfectValue += 1;\<close>
  \<open>milliVolts\<close> is an \<open>int32\<close>, the step size is unsigned: the usual arithmetic
  conversions make both \<open>/\<close> and \<open>%\<close> unsigned 32-bit operations, which is what
  \<open>div\<close> and \<open>mod\<close> on words are.
\<close>

definition quantize :: "32 word \<Rightarrow> 32 word" where
  "quantize milliVolts =
     (let notePerfectValue = milliVolts div NOTEPERFECT_STEP_SIZE_MV;
          remainder = milliVolts mod NOTEPERFECT_STEP_SIZE_MV
      in if remainder \<ge> NOTEPERFECT_STEP_SIZE_MV div 2
         then notePerfectValue + 1 else notePerfectValue)"

subsection \<open>The correction check\<close>

text \<open>
  \<open>(uint32_t) milliVolts > PWM_Lookup[notePerfectValue] + CORRECTION_WINDOW ||
    (uint32_t) milliVolts < PWM_Lookup[notePerfectValue] - CORRECTION_WINDOW\<close>
  The table entry is a \<open>uint16_t\<close>, promoted and then converted to unsigned 32 bits by
  the unsigned window constant: both bounds and both comparisons are unsigned, and the
  subtraction wraps around when the entry is smaller than the window.
\<close>

definition correction_applied :: "32 word \<Rightarrow> 16 word \<Rightarrow> bool" where
  "correction_applied milliVolts representative =
     (milliVolts > ucast representative + CORRECTION_WINDOW \<or>
      milliVolts < ucast representative - CORRECTION_WINDOW)"

subsection \<open>The moving-average filter\<close>

text \<open>
  The filter's variables in \<open>main\<close>: \<open>int32 adcCounts[MAX_SAMPLE]\<close>, \<open>int32 sum\<close>,
  \<open>int32 averageCounts\<close>, \<open>uint8 index\<close>.
\<close>

record filter_state =
  adcCounts :: "32 word list"
  sum_counts :: "32 word"
  averageCounts :: "32 word"
  index :: "8 word"

text \<open>\<open>for (i = 0; i < MAX_SAMPLE; i++) adcCounts[i] = result;\<close>\<close>

function fill_loop :: "nat \<Rightarrow> 32 word \<Rightarrow> 32 word list \<Rightarrow> 32 word list" where
  "fill_loop i result xs =
     (if i < MAX_SAMPLE then fill_loop (Suc i) result (xs[i := result]) else xs)"
  by pat_completeness auto
termination
  by (relation "measure (\<lambda>(i, result, xs). MAX_SAMPLE - i)") auto

declare fill_loop.simps [simp del]

text \<open>
  The initialisation before the loop: the array starts as \<open>{0}\<close>, is filled with the
  first ADC result, \<open>sum = result << DIV\<close>, \<open>averageCounts = result\<close>, \<open>index = 0\<close>.
\<close>

definition filter_init :: "32 word \<Rightarrow> filter_state" where
  "filter_init result =
     \<lparr> adcCounts = fill_loop 0 result (replicate MAX_SAMPLE 0),
       sum_counts = push_bit DIV result,
       averageCounts = result,
       index = 0 \<rparr>"

text \<open>
  \<open>abs\<close> on a 32-bit \<open>int\<close>; the most negative value is its own negation in
  two's complement.
\<close>

definition abs32 :: "32 word \<Rightarrow> 32 word" where
  "abs32 x = (if sint x < 0 then - x else x)"

text \<open>
  \<open>diff = abs(averageCounts - result);\<close> where \<open>diff\<close> is declared \<open>int16\<close>: the
  32-bit absolute difference is cut to its low 16 bits by the assignment.
\<close>

definition slope_diff :: "32 word \<Rightarrow> 32 word \<Rightarrow> 16 word" where
  "slope_diff average result = ucast (abs32 (average - result))"

text \<open>
  One filter update: the slope-reset branch when \<open>diff > SIGNAL_SLOPE\<close> (a signed
  comparison of the \<open>int16\<close>), the sliding-window branch otherwise. The arithmetic
  right shift of the signed \<open>sum\<close> is \<open>signed_drop_bit\<close>. The array is read and
  written at \<open>index\<close>, which the code keeps below \<open>MAX_SAMPLE\<close>: \<open>filter_wf_run\<close>
  below proves that no run leaves the buffer.
\<close>

definition filter_update :: "filter_state \<Rightarrow> 32 word \<Rightarrow> filter_state" where
  "filter_update st result =
     (let diff = slope_diff (averageCounts st) result
      in if sint diff > SIGNAL_SLOPE
         then \<lparr> adcCounts = fill_loop 0 result (adcCounts st),
                sum_counts = push_bit DIV result,
                averageCounts = result,
                index = 0 \<rparr>
         else
           let sum1 = sum_counts st - adcCounts st ! unat (index st);
               sum2 = sum1 + result;
               index1 = index st + 1
           in \<lparr> adcCounts = (adcCounts st)[unat (index st) := result],
                sum_counts = sum2,
                averageCounts = signed_drop_bit DIV sum2,
                index = (if index1 = word_of_nat MAX_SAMPLE then 0 else index1) \<rparr>)"

text \<open>The filter after the initial sample and a sequence of further samples.\<close>

definition run_filter :: "32 word \<Rightarrow> 32 word list \<Rightarrow> filter_state" where
  "run_filter first samples = foldl filter_update (filter_init first) samples"

text \<open>
  The range of samples whose 128-fold sum fits the \<open>int32\<close> accumulator. The codes of
  the 20-bit ADC lie well inside it.
\<close>

definition sample_in_range :: "32 word \<Rightarrow> bool" where
  "sample_in_range s = (- (2 ^ 24) \<le> sint s \<and> sint s < 2 ^ 24)"

subsection \<open>One iteration of the main loop\<close>

text \<open>
  The calls into the components, in the order the loop makes them. The three
  LCD writes stand for \<open>sprintf\<close>, \<open>LCD_Position\<close> and \<open>LCD_PrintString\<close> of the DAC value
  at (1,12), of the step number at (0,14) and of the millivolts at (1,0);
  \<open>LCD_Channel\<close> is the channel name printed at (0,0).
  \<open>Control_Reg_Or m\<close> is \<open>Control_Reg_Write(Control_Reg_Read() | m)\<close> and
  \<open>Control_Reg_AndNot m\<close> is \<open>Control_Reg_Write(Control_Reg_Read() & ~m)\<close>.
\<close>

datatype event =
    PWM_WriteCompare "16 word"
  | PWM_Red_WriteCompare "16 word"
  | PWM_Green_WriteCompare "16 word"
  | LCD_DAC "16 word"
  | LCD_Step "32 word"
  | LCD_mV "32 word"
  | PWM_Blue_WriteCompare "16 word"
  | PWM_Blue_Start
  | PWM_Blue_Stop
  | Control_Reg_Or "8 word"
  | Control_Reg_AndNot "8 word"
  | CapSense_UpdateEnabledBaselines
  | CapSense_ScanEnabledWidgets
  | myMux_FastSelect "8 word"
  | PWM_Red_Start
  | PWM_Red_Stop
  | PWM_Green_Start
  | PWM_Green_Stop
  | LCD_Channel string

text \<open>
  The primary outputs: the PWM compare value, the LED compare values and the DAC and
  step fields of the display.
\<close>

fun is_primary :: "event \<Rightarrow> bool" where
  "is_primary (PWM_WriteCompare v) = True"
| "is_primary (PWM_Red_WriteCompare v) = True"
| "is_primary (PWM_Green_WriteCompare v) = True"
| "is_primary (LCD_DAC v) = True"
| "is_primary (LCD_Step v) = True"
| "is_primary e = False"

text \<open>The calls that drive the blue (correction) indicator.\<close>

fun is_blue :: "event \<Rightarrow> bool" where
  "is_blue (PWM_Blue_WriteCompare v) = True"
| "is_blue PWM_Blue_Start = True"
| "is_blue PWM_Blue_Stop = True"
| "is_blue (Control_Reg_Or m) = True"
| "is_blue (Control_Reg_AndNot m) = True"
| "is_blue e = False"

text \<open>
  The state of the signal pipeline that survives an iteration. \<open>inputChannel\<close> is set
  by the touch-button block at the top of the loop (\<open>capsense_block\<close> below).
\<close>

record loop_state =
  filt :: filter_state
  previousNotePerfectValue :: "32 word"
  inputChannel :: "8 word"

text \<open>The body of \<open>if (notePerfectValue != previousNotePerfectValue)\<close>, given the table entry.\<close>

definition primary_outputs :: "8 word \<Rightarrow> 32 word \<Rightarrow> 16 word \<Rightarrow> event list" where
  "primary_outputs channel notePerfectValue representative =
     [PWM_WriteCompare representative] @
     (if IN_A = channel
      then [PWM_Red_WriteCompare
              (if 0 = notePerfectValue then PWM_Lookup ! 1 else representative)]
      else if IN_B = channel
      then [PWM_Green_WriteCompare
              (if 0 = notePerfectValue then PWM_Lookup ! 1 else representative)]
      else []) @
     [LCD_DAC representative, LCD_Step notePerfectValue]"

text \<open>The correction branch at the end of the loop body.\<close>

definition correction_outputs :: "32 word \<Rightarrow> 32 word \<Rightarrow> 16 word \<Rightarrow> event list" where
  "correction_outputs milliVolts notePerfectValue representative =
     (if correction_applied milliVolts representative
      then [PWM_Blue_WriteCompare
              (if notePerfectValue > 10 then PWM_Lookup ! 10 else representative),
            PWM_Blue_Start]
      else [Control_Reg_Or BLUE_CTRL, PWM_Blue_Stop, Control_Reg_AndNot BLUE_CTRL])"

text \<open>
  The filtered millivolts and the step number of an iteration. \<open>ADC_CountsTo_mVolts\<close>
  belongs to the generated ADC component and is a parameter.
\<close>

definition tick_milliVolts :: "(32 word \<Rightarrow> 32 word) \<Rightarrow> loop_state \<Rightarrow> 32 word \<Rightarrow> 32 word" where
  "tick_milliVolts ADC_CountsTo_mVolts st result =
     ADC_CountsTo_mVolts (averageCounts (filter_update (filt st) result))"

definition tick_step :: "(32 word \<Rightarrow> 32 word) \<Rightarrow> loop_state \<Rightarrow> 32 word \<Rightarrow> 32 word" where
  "tick_step ADC_CountsTo_mVolts st result =
     quantize (tick_milliVolts ADC_CountsTo_mVolts st result)"

text \<open>
  The second part of the loop body, from \<open>result = ADC_GetResult32()\<close> to its end: the
  new state and the output calls in order, or \<open>None\<close> when
  \<open>PWM_Lookup[notePerfectValue]\<close> reads outside the table. The whole body is
  \<open>loop_iteration\<close> below.
\<close>

definition tick ::
  "(32 word \<Rightarrow> 32 word) \<Rightarrow> loop_state \<Rightarrow> 32 word \<Rightarrow> (loop_state \<times> event list) option" where
  "tick ADC_CountsTo_mVolts st result =
     (let f = filter_update (filt st) result;
          milliVolts = ADC_CountsTo_mVolts (averageCounts f);
          notePerfectValue = quantize milliVolts
      in case PWM_Lookup_at notePerfectValue of
           None \<Rightarrow> None
         | Some representative \<Rightarrow>
             if notePerfectValue \<noteq> previousNotePerfectValue st
             then Some (\<lparr> filt = f, previousNotePerfectValue = notePerfectValue,
                          inputChannel = inputChannel st \<rparr>,
                        primary_outputs (inputChannel st) notePerfectValue representative @
                        [LCD_mV milliVolts] @
                        correction_outputs milliVolts notePerfectValue representative)
             else Some (\<lparr> filt = f, previousNotePerfectValue = previousNotePerfectValue st,
                          inputChannel = inputChannel st \<rparr>,
                        [LCD_mV milliVolts] @
                        correction_outputs milliVolts notePerfectValue representative))"

text \<open>The loop state on entry to \<open>while (1)\<close>.\<close>

definition main_init :: "32 word \<Rightarrow> loop_state" where
  "main_init result =
     \<lparr> filt = filter_init result, previousNotePerfectValue = 0, inputChannel = IN_A \<rparr>"

subsection \<open>The touch-button block and the whole loop body\<close>

text \<open>
  What the CapSense component reports in one iteration: \<open>CapSense_IsBusy() != 0\<close> and
  \<open>CapSense_CheckIsWidgetActive\<close> of the three buttons. The component is generated
  code; its answers are inputs of the iteration.
\<close>

record capsense_input =
  busy :: bool
  button0 :: bool
  button1 :: bool
  button2 :: bool

text \<open>All variables of \<open>main\<close> that survive an iteration.\<close>

record main_state =
  previousButton0 :: "8 word"
  previousButton1 :: "8 word"
  core :: loop_state

text \<open>
  \<open>if (CapSense_CheckIsWidgetActive(CapSense_BUTTON0__BTN)) { if (previousButton0 == OFF)
  { ... } } else previousButton0 = OFF;\<close> selects input A on the rising edge.
\<close>

definition button0_block :: "bool \<Rightarrow> main_state \<Rightarrow> main_state \<times> event list" where
  "button0_block active st =
     (if active
      then if previousButton0 st = OFF
           then (st\<lparr> previousButton0 := ON, core := (core st)\<lparr> inputChannel := IN_A \<rparr> \<rparr>,
                 [myMux_FastSelect IN_A, PWM_Red_Start, Control_Reg_Or GREEN_CTRL,
                  PWM_Green_Stop, Control_Reg_AndNot GREEN_CTRL, LCD_Channel ''In A''])
           else (st, [])
      else (st\<lparr> previousButton0 := OFF \<rparr>, []))"

text \<open>The same for button 1 and input B.\<close>

definition button1_block :: "bool \<Rightarrow> main_state \<Rightarrow> main_state \<times> event list" where
  "button1_block active st =
     (if active
      then if previousButton1 st = OFF
           then (st\<lparr> previousButton1 := ON, core := (core st)\<lparr> inputChannel := IN_B \<rparr> \<rparr>,
                 [myMux_FastSelect IN_B, PWM_Green_Start, Control_Reg_Or RED_CTRL,
                  PWM_Red_Stop, Control_Reg_AndNot RED_CTRL, LCD_Channel ''In B''])
           else (st, [])
      else (st\<lparr> previousButton1 := OFF \<rparr>, []))"

text \<open>
  Button 2, \<open>future use ... for demo only\<close>: while it is touched, every iteration calls
  \<open>PWM_Blue_WriteCompare(5000); PWM_Blue_Start(); PWM_Red_WriteCompare(0);
  PWM_Green_WriteCompare(0);\<close>.
\<close>

definition button2_block :: "bool \<Rightarrow> event list" where
  "button2_block active =
     (if active
      then [PWM_Blue_WriteCompare 5000, PWM_Blue_Start, PWM_Red_WriteCompare 0,
            PWM_Green_WriteCompare 0]
      else [])"

text \<open>The block \<open>if (CapSense_IsBusy() == 0) { ... }\<close> at the top of the loop body.\<close>

definition capsense_block :: "capsense_input \<Rightarrow> main_state \<Rightarrow> main_state \<times> event list" where
  "capsense_block inp st =
     (if busy inp then (st, [])
      else
        let (st0, evs0) = button0_block (button0 inp) st;
            (st1, evs1) = button1_block (button1 inp) st0
        in (st1, [CapSense_UpdateEnabledBaselines] @ evs0 @ evs1 @
                 button2_block (button2 inp) @ [CapSense_ScanEnabledWidgets]))"

text \<open>
  One whole iteration of \<open>while (1)\<close>: the touch-button block, then the ADC result and
  the pipeline.
\<close>

definition loop_iteration ::
  "(32 word \<Rightarrow> 32 word) \<Rightarrow> capsense_input \<Rightarrow> main_state \<Rightarrow> 32 word \<Rightarrow>
     (main_state \<times> event list) option" where
  "loop_iteration ADC_CountsTo_mVolts inp st result =
     (let (st1, evs1) = capsense_block inp st
      in case tick ADC_CountsTo_mVolts (core st1) result of
           None \<Rightarrow> None
         | Some (c, evs2) \<Rightarrow> Some (st1\<lparr> core := c \<rparr>, evs1 @ evs2))"

text \<open>All variables on entry to \<open>while (1)\<close>.\<close>

definition main_start :: "32 word \<Rightarrow> main_state" where
  "main_start result =
     \<lparr> previousButton0 = OFF, previousButton1 = OFF, core = main_init result \<rparr>"

subsection \<open>Invariants of the filter\<close>

text \<open>
  The invariant of the filter on samples in range: the buffer has \<open>MAX_SAMPLE\<close> slots,
  the cursor is inside it, \<open>sum\<close> is the sum of the slots, and \<open>averageCounts\<close> is
  \<open>sum >> DIV\<close>.
\<close>

definition filter_inv :: "filter_state \<Rightarrow> bool" where
  "filter_inv st =
     (length (adcCounts st) = MAX_SAMPLE \<and> unat (index st) < MAX_SAMPLE \<and>
      sum_counts st = sum_list (adcCounts st) \<and>
      list_all sample_in_range (adcCounts st) \<and>
      averageCounts st = signed_drop_bit DIV (sum_counts st))"

text \<open>
  The part of the invariant that needs no bound on the samples: in 32-bit wrap-around
  arithmetic \<open>sum\<close> is always the sum of the slots.
\<close>

definition filter_wf :: "filter_state \<Rightarrow> bool" where
  "filter_wf st =
     (length (adcCounts st) = MAX_SAMPLE \<and> unat (index st) < MAX_SAMPLE \<and>
      sum_counts st = sum_list (adcCounts st))"

text \<open>The filter holding nothing but the sample \<open>s\<close>.\<close>

definition settled :: "32 word \<Rightarrow> filter_state \<Rightarrow> bool" where
  "settled s st =
     (adcCounts st = replicate MAX_SAMPLE s \<and> sum_counts st = push_bit DIV s \<and>
      averageCounts st = s \<and> unat (index st) < MAX_SAMPLE)"

section \<open>The constants and the table\<close>

lemma step_size_83: "NOTEPERFECT_STEP_SIZE_MV = 83"
  by (simp add: NOTEPERFECT_STEP_SIZE_MV_def NUMBER_NOTE_PERFECT_STEPS_def
      NUMBER_NOTES_PER_VOLT_def MAX_CONTROL_VOLTAGE_def)

lemma correction_window_20: "CORRECTION_WINDOW = 20"
  by (simp add: CORRECTION_WINDOW_def step_size_83)

lemma length_PWM_Lookup: "length PWM_Lookup = 61"
  by (simp add: PWM_Lookup_def)

lemma PWM_Lookup_rounded:
  "PWM_Lookup = map (\<lambda>i. word_of_nat ((i * 5000 + 30) div 60)) [0..<61]"
  by (simp add: PWM_Lookup_def upt_rec)

lemma sorted_wrt_less_step:
  "sorted_wrt (<) ((x :: 16 word) # y # zs) = (x < y \<and> sorted_wrt (<) (y # zs))"
  by (rule sorted_wrt2) (rule transp_on_less)

lemma PWM_Lookup_increasing: "sorted_wrt (<) PWM_Lookup"
  unfolding PWM_Lookup_def
  by (simp only: sorted_wrt_less_step sorted_wrt1) simp

text \<open>
  Claim C4, as stated, fails: the entries are not \<open>i * 83\<close>. Entry 2 is 167, not 166.
\<close>

theorem PWM_Lookup_not_multiples:
  "unat (PWM_Lookup ! 2) = 167 \<and> 2 * unat NOTEPERFECT_STEP_SIZE_MV = 166 \<and>
   unat (PWM_Lookup ! 2) \<noteq> 2 * unat NOTEPERFECT_STEP_SIZE_MV"
  by (simp add: PWM_Lookup_def step_size_83)

text \<open>
  Claim C4, amended. The table is strictly increasing, has exactly
  \<open>12 * 5 + 1 = 61\<close> entries, the step size is \<open>(5 * 1000) / 60 = 83\<close>, and entry \<open>i\<close>
  is \<open>i * 5000 / 60\<close> rounded to the nearest integer (not \<open>i * 83\<close>), so that the last
  entry is exactly 5000.
\<close>

theorem PWM_Lookup_table:
  "sorted_wrt (<) PWM_Lookup \<and>
   length PWM_Lookup = unat (NUMBER_NOTES_PER_VOLT * MAX_CONTROL_VOLTAGE + 1) \<and>
   length PWM_Lookup = 61 \<and>
   NOTEPERFECT_STEP_SIZE_MV = 83 \<and>
   PWM_Lookup = map (\<lambda>i. word_of_nat ((i * 5000 + 30) div 60)) [0..<61] \<and>
   last PWM_Lookup = 5000"
proof (intro conjI)
  show "sorted_wrt (<) PWM_Lookup"
    by (rule PWM_Lookup_increasing)
  show "length PWM_Lookup = unat (NUMBER_NOTES_PER_VOLT * MAX_CONTROL_VOLTAGE + 1)"
    by (simp add: length_PWM_Lookup NUMBER_NOTES_PER_VOLT_def MAX_CONTROL_VOLTAGE_def)
  show "length PWM_Lookup = 61"
    by (rule length_PWM_Lookup)
  show "NOTEPERFECT_STEP_SIZE_MV = 83"
    by (rule step_size_83)
  show "PWM_Lookup = map (\<lambda>i. word_of_nat ((i * 5000 + 30) div 60)) [0..<61]"
    by (rule PWM_Lookup_rounded)
  show "last PWM_Lookup = 5000"
    by (simp add: PWM_Lookup_def)
qed

section \<open>The filter\<close>

lemma MAX_SAMPLE_pos: "0 < MAX_SAMPLE"
  by (simp add: MAX_SAMPLE_def)

lemma fill_loop_gen:
  "i \<le> MAX_SAMPLE \<Longrightarrow> length xs = MAX_SAMPLE \<Longrightarrow>
   fill_loop i r xs = take i xs @ replicate (MAX_SAMPLE - i) r"
proof (induction i r xs rule: fill_loop.induct)
  case (1 i result xs)
  show ?case
  proof (cases "i < MAX_SAMPLE")
    case True
    have "fill_loop i result xs = fill_loop (Suc i) result (xs[i := result])"
      using True by (subst fill_loop.simps) simp
    also have "\<dots> = take (Suc i) (xs[i := result]) @ replicate (MAX_SAMPLE - Suc i) result"
      using "1.IH"[OF True] True "1.prems" by simp
    also have "\<dots> = take i xs @ replicate (MAX_SAMPLE - i) result"
      using True "1.prems"
      by (simp add: take_Suc_conv_app_nth Suc_diff_Suc replicate_app_Cons_same del: replicate_Suc flip: replicate_Suc)
    finally show ?thesis .
  next
    case False
    then show ?thesis using "1.prems" by (subst fill_loop.simps) simp
  qed
qed

lemma fill_loop_replicate:
  "length xs = MAX_SAMPLE \<Longrightarrow> fill_loop 0 r xs = replicate MAX_SAMPLE r"
  using fill_loop_gen[of 0 xs r] by simp

lemma sint_push_bit_DIV:
  assumes "sample_in_range s"
  shows "sint (push_bit DIV s) = 128 * sint s"
proof -
  have "push_bit DIV s = s * 128"
    by (simp add: DIV_def push_bit_eq_mult)
  moreover have "sint (s * 128) = signed_take_bit 31 (sint s * 128)"
    by (simp add: sint_word_mult)
  moreover have "signed_take_bit 31 (sint s * 128) = sint s * 128"
    using assms by (intro signed_take_bit_int_eq_self) (simp_all add: sample_in_range_def)
  ultimately show ?thesis by simp
qed

lemma signed_drop_push_DIV:
  assumes "sample_in_range s"
  shows "signed_drop_bit DIV (push_bit DIV s) = s"
proof -
  have "sint (signed_drop_bit DIV (push_bit DIV s)) = drop_bit DIV (sint (push_bit DIV s))"
    by (rule sint_signed_drop_bit_eq)
  also have "\<dots> = drop_bit DIV (128 * sint s)"
    by (simp only: sint_push_bit_DIV[OF assms])
  also have "\<dots> = sint s"
    by (simp add: drop_bit_eq_div DIV_def)
  finally show ?thesis by (rule signed_word_eqI)
qed

lemma sum_list_update_word:
  fixes xs :: "'a::ab_group_add list"
  shows "k < length xs \<Longrightarrow> sum_list (xs[k := x]) = sum_list xs - xs ! k + x"
proof (induction xs arbitrary: k)
  case Nil
  then show ?case by simp
next
  case (Cons a xs)
  then show ?case by (cases k) (simp_all add: algebra_simps)
qed

lemma slope_same: "slope_diff a a = 0"
  by (simp add: slope_diff_def abs32_def)

lemma index_step:
  "unat (i :: 8 word) < MAX_SAMPLE \<Longrightarrow>
   unat (if i + 1 = word_of_nat MAX_SAMPLE then 0 else i + 1) < MAX_SAMPLE"
  unfolding MAX_SAMPLE_def
  apply (simp )
  apply unat_arith
  done

lemma sum_list_sint_bounds:
  "\<forall>x\<in>set xs. sample_in_range x \<Longrightarrow>
   - (2 ^ 24) * int (length xs) \<le> (\<Sum>x\<leftarrow>xs. sint x) \<and>
   (\<Sum>x\<leftarrow>xs. sint x) \<le> (2 ^ 24 - 1) * int (length xs)"
proof (induction xs)
  case Nil
  then show ?case by simp
next
  case (Cons a xs)
  then have "- (2 ^ 24) \<le> sint a" "sint a \<le> 2 ^ 24 - 1"
    by (simp_all add: sample_in_range_def)
  with Cons show ?case by (simp add: algebra_simps)
qed

lemma sint_sum_list:
  "\<forall>x\<in>set xs. sample_in_range x \<Longrightarrow> length xs \<le> MAX_SAMPLE \<Longrightarrow>
   sint (sum_list xs) = (\<Sum>x\<leftarrow>xs. sint x)"
proof (induction xs)
  case Nil
  then show ?case by simp
next
  case (Cons a xs)
  have b: "- (2 ^ 24) * int (length (a # xs)) \<le> (\<Sum>x\<leftarrow>a # xs. sint x)"
          "(\<Sum>x\<leftarrow>a # xs. sint x) \<le> (2 ^ 24 - 1) * int (length (a # xs))"
    using sum_list_sint_bounds[OF Cons.prems(1)] by simp_all
  have len: "int (length (a # xs)) \<le> 128"
    using Cons.prems(2) by (simp add: MAX_SAMPLE_def)
  have lo: "- (2 ^ 31) \<le> (\<Sum>x\<leftarrow>a # xs. sint x)"
  proof -
    have "- (2 ^ 24) * int (length (a # xs)) \<ge> - (2 ^ 24) * (128 :: int)"
      using len by simp
    with b(1) show ?thesis by simp
  qed
  have hi: "(\<Sum>x\<leftarrow>a # xs. sint x) < 2 ^ 31"
  proof -
    have "(2 ^ 24 - 1) * int (length (a # xs)) \<le> (2 ^ 24 - 1) * (128 :: int)"
      using len by simp
    with b(2) show ?thesis by simp
  qed
  have "sint (sum_list (a # xs)) = signed_take_bit 31 (sint a + sint (sum_list xs))"
    by (simp add: sint_word_add)
  also have "sint (sum_list xs) = (\<Sum>x\<leftarrow>xs. sint x)"
    using Cons by simp
  also have "signed_take_bit 31 (sint a + (\<Sum>x\<leftarrow>xs. sint x)) = sint a + (\<Sum>x\<leftarrow>xs. sint x)"
    using lo hi by (intro signed_take_bit_int_eq_self) simp_all
  finally show ?case by simp
qed

lemma sum_list_replicate_word:
  "sum_list (replicate MAX_SAMPLE (r :: 32 word)) = push_bit DIV r"
  by (simp add: sum_list_replicate MAX_SAMPLE_def DIV_def push_bit_eq_mult)

lemma filter_inv_reset:
  assumes "sample_in_range r"
  shows "filter_inv \<lparr> adcCounts = replicate MAX_SAMPLE r, sum_counts = push_bit DIV r,
                     averageCounts = r, index = 0 \<rparr>"
  using assms
  by (simp add: filter_inv_def sum_list_replicate_word signed_drop_push_DIV list_all_iff
      MAX_SAMPLE_pos)

lemma filter_inv_init: "sample_in_range r \<Longrightarrow> filter_inv (filter_init r)"
  by (simp add: filter_init_def fill_loop_replicate filter_inv_reset)

lemma filter_inv_update:
  assumes inv: "filter_inv st" and r: "sample_in_range r"
  shows "filter_inv (filter_update st r)"
proof (cases "sint (slope_diff (averageCounts st) r) > SIGNAL_SLOPE")
  case True
  then have "filter_update st r =
      \<lparr> adcCounts = replicate MAX_SAMPLE r, sum_counts = push_bit DIV r,
        averageCounts = r, index = 0 \<rparr>"
    using inv by (simp add: filter_update_def filter_inv_def fill_loop_replicate)
  then show ?thesis by (simp add: filter_inv_reset[OF r])
next
  case False
  let ?i = "unat (index st)"
  have len: "length (adcCounts st) = MAX_SAMPLE" and i: "?i < MAX_SAMPLE"
    and s: "sum_counts st = sum_list (adcCounts st)"
    and rng: "list_all sample_in_range (adcCounts st)"
    using inv by (simp_all add: filter_inv_def)
  have upd: "filter_update st r =
      \<lparr> adcCounts = (adcCounts st)[?i := r],
        sum_counts = sum_counts st - adcCounts st ! ?i + r,
        averageCounts = signed_drop_bit DIV (sum_counts st - adcCounts st ! ?i + r),
        index = (if index st + 1 = word_of_nat MAX_SAMPLE then 0 else index st + 1) \<rparr>"
    using False by (simp add: filter_update_def Let_def)
  have "sum_list ((adcCounts st)[?i := r]) = sum_counts st - adcCounts st ! ?i + r"
    using i len s by (simp add: sum_list_update_word)
  moreover have "list_all sample_in_range ((adcCounts st)[?i := r])"
    using rng r by (auto simp: list_all_iff dest: set_update_subset_insert[THEN subsetD])
  moreover note index_step[OF i]
  ultimately show ?thesis
    unfolding upd filter_inv_def using len by simp
qed

lemma filter_inv_foldl:
  "filter_inv st \<Longrightarrow> list_all sample_in_range samples \<Longrightarrow>
   filter_inv (foldl filter_update st samples)"
  by (induction samples arbitrary: st) (simp_all add: filter_inv_update)

lemma filter_inv_sint_sum:
  assumes "filter_inv st"
  shows "sint (sum_counts st) = (\<Sum>x\<leftarrow>adcCounts st. sint x)"
  using assms sint_sum_list[of "adcCounts st"]
  by (simp add: filter_inv_def list_all_iff)

text \<open>
  Claim C5. Start the filter with a first sample and feed it any sequence of further
  samples, all within the range the accumulator is sized for. After the last update,
  whichever branch each update took, the buffer still has 128 slots, the maintained
  \<open>sum\<close> read as a signed number equals the sum of the 128 buffer contents added up
  as unbounded integers, and \<open>averageCounts\<close> equals \<open>sum >> 7\<close>. The sequence is
  arbitrary, so this holds after every update of every run.
\<close>

theorem running_sum_consistent:
  assumes "sample_in_range first" and "list_all sample_in_range samples"
  shows "length (adcCounts (run_filter first samples)) = 128 \<and>
         sint (sum_counts (run_filter first samples)) =
           (\<Sum>x\<leftarrow>adcCounts (run_filter first samples). sint x) \<and>
         averageCounts (run_filter first samples) =
           signed_drop_bit 7 (sum_counts (run_filter first samples))"
proof -
  have inv: "filter_inv (run_filter first samples)"
    unfolding run_filter_def
    using assms by (intro filter_inv_foldl filter_inv_init)
  then show ?thesis
    using filter_inv_sint_sum[OF inv] by (simp add: filter_inv_def MAX_SAMPLE_def DIV_def)
qed

theorem running_sum_consistent_witness:
  "sample_in_range 5 \<and> list_all sample_in_range [7, 2000, 2001] \<and>
   length (adcCounts (run_filter 5 [7, 2000, 2001])) = 128 \<and>
   sint (sum_counts (run_filter 5 [7, 2000, 2001])) =
     (\<Sum>x\<leftarrow>adcCounts (run_filter 5 [7, 2000, 2001]). sint x) \<and>
   averageCounts (run_filter 5 [7, 2000, 2001]) =
     signed_drop_bit 7 (sum_counts (run_filter 5 [7, 2000, 2001]))"
proof -
  have a: "sample_in_range 5"
    by (simp add: sample_in_range_def)
  have b: "list_all sample_in_range [7, 2000, 2001]"
    by (simp add: sample_in_range_def)
  from running_sum_consistent[OF a b] a b show ?thesis
    by blast
qed

lemma settled_init: "settled s (filter_init s)"
  by (simp add: settled_def filter_init_def fill_loop_replicate MAX_SAMPLE_pos)

lemma settled_update:
  assumes "sample_in_range s" and st: "settled s st"
  shows "settled s (filter_update st s)"
proof -
  have i: "unat (index st) < MAX_SAMPLE" using st by (simp add: settled_def)
  have nth: "replicate MAX_SAMPLE s ! unat (index st) = s"
    using i by simp
  have upd: "(replicate MAX_SAMPLE s)[unat (index st) := s] = replicate MAX_SAMPLE s"
    by (metis list_update_id nth)
  show ?thesis
    using st index_step[OF i] 
    by (simp add: settled_def filter_update_def slope_same SIGNAL_SLOPE_def Let_def nth upd
        signed_drop_push_DIV[OF assms(1)])
qed

lemma settled_foldl:
  "sample_in_range s \<Longrightarrow> settled s st \<Longrightarrow> settled s (foldl filter_update st (replicate n s))"
  by (induction n arbitrary: st) (simp_all add: settled_update)

text \<open>
  Claim C7. After the filter is initialised with a sample \<open>s\<close> in range (every slot
  holds \<open>s\<close>, \<open>sum = s << 7\<close>, \<open>averageCounts = s\<close>), feeding the same sample on each
  of \<open>n\<close> further ticks leaves \<open>averageCounts\<close> equal to \<open>s\<close>, for every \<open>n\<close>. A
  constant input never triggers the slope reset, since its difference from the average
  is 0.
\<close>

theorem constant_input_average:
  assumes "sample_in_range s"
  shows "adcCounts (filter_init s) = replicate 128 s \<and>
         sum_counts (filter_init s) = push_bit 7 s \<and>
         averageCounts (filter_init s) = s \<and>
         averageCounts (run_filter s (replicate n s)) = s"
  using settled_foldl[OF assms settled_init, of n] settled_init[of s]
  by (simp add: run_filter_def settled_def MAX_SAMPLE_def DIV_def)

theorem constant_input_average_witness:
  "sample_in_range 1000 \<and> averageCounts (run_filter 1000 (replicate 300 1000)) = 1000"
proof -
  have a: "sample_in_range 1000"
    by (simp add: sample_in_range_def)
  from constant_input_average[OF a, of 300] a show ?thesis
    by blast
qed

section \<open>The quantizer and the table lookup\<close>

lemma quantize_uint:
  "uint (quantize mv) = uint mv div 83 + (if 41 \<le> uint mv mod 83 then 1 else 0)"
proof -
  have d: "uint (mv div 83) = uint mv div 83"
    by (simp add: uint_div)
  have m: "uint (mv mod 83) = uint mv mod 83"
    by (simp add: uint_mod)
  have le: "(41 \<le> mv mod 83) = (41 \<le> uint mv mod 83)"
    by (simp add: word_le_def m)
  have "0 \<le> uint mv" "uint mv < 2 ^ 32"
    using uint_lt2p[of mv] by simp_all
  then have small: "0 \<le> uint mv div 83 + 1" "uint mv div 83 + 1 < 2 ^ 32"
    by (simp_all add: div_int_pos_iff)
  have "uint (mv div 83 + 1) = (uint mv div 83 + 1) mod 2 ^ 32"
    by (simp add: uint_word_ariths d)
  also have "\<dots> = uint mv div 83 + 1"
    using small by (intro mod_pos_pos_trivial) simp_all
  finally show ?thesis
    by (simp add: quantize_def step_size_83 le d Let_def)
qed

lemma PWM_Lookup_at_Some_iff: "(\<exists>v. PWM_Lookup_at i = Some v) = (i \<le> 60)"
  by (auto simp: PWM_Lookup_at_def length_PWM_Lookup word_le_nat_alt)

lemma uint_of_sint:
  "uint (w :: 32 word) = (if sint w < 0 then sint w + 2 ^ 32 else sint w)"
proof -
  have r: "- (2 ^ 31) \<le> sint w" "sint w < 2 ^ 31"
    using sint_ge[of w] sint_lt[of w] by simp_all
  have u: "uint w = sint w mod 2 ^ 32"
    by (simp add: uint_sint take_bit_eq_mod)
  show ?thesis
  proof (cases "sint w < 0")
    case True
    have "(sint w + 2 ^ 32) mod 2 ^ 32 = sint w + 2 ^ 32"
      using r True by (intro mod_pos_pos_trivial) simp_all
    moreover have "(sint w + 2 ^ 32) mod 2 ^ 32 = sint w mod 2 ^ 32"
      by simp
    ultimately show ?thesis using True u by simp
  next
    case False
    have "sint w mod 2 ^ 32 = sint w"
      using r False by (intro mod_pos_pos_trivial) simp_all
    then show ?thesis using False u by simp
  qed
qed

lemma quantize_le_60_uint: "(quantize mv \<le> 60) = (uint mv \<le> 5020)"
proof -
  define q where "q = uint mv div 83"
  define m where "m = uint mv mod 83"
  have split: "uint mv = 83 * q + m"
    by (simp add: q_def m_def)
  have mb: "0 \<le> m" "m < 83"
    by (simp_all add: m_def)
  have res: "uint (quantize mv) = q + (if 41 \<le> m then 1 else 0)"
    by (simp only: quantize_uint q_def m_def)
  have "(quantize mv \<le> 60) = (uint (quantize mv) \<le> 60)"
    by (simp add: word_le_def)
  also have "\<dots> = (83 * q + m \<le> 5020)"
    unfolding res using mb by auto
  finally show ?thesis
    by (simp only: split)
qed

lemma quantize_in_bounds_iff:
  "(quantize mv \<le> 60) = (0 \<le> sint mv \<and> sint mv \<le> 5020)"
proof -
  have r: "- (2 ^ 31) \<le> sint mv"
    using sint_ge[of mv] by simp
  show ?thesis
    unfolding quantize_le_60_uint uint_of_sint using r by auto
qed

lemma quantize_negative:
  assumes "sint mv < 0"
  shows "25873297 \<le> uint (quantize mv)"
proof -
  define q where "q = uint mv div 83"
  define m where "m = uint mv mod 83"
  have r: "- (2 ^ 31) \<le> sint mv"
    using sint_ge[of mv] by simp
  have n: "2147483648 \<le> uint mv"
    using uint_of_sint[of mv] assms r by simp
  have split: "uint mv = 83 * q + m"
    by (simp add: q_def m_def)
  have mb: "0 \<le> m" "m < 83"
    by (simp_all add: m_def)
  have res: "uint (quantize mv) = q + (if 41 \<le> m then 1 else 0)"
    by (simp only: quantize_uint q_def m_def)
  have "2147483648 \<le> 83 * q + m"
    using n split by simp
  then show ?thesis
    unfolding res using mb by auto
qed

text \<open>
  Claim C2, as stated, fails at 41 mV: the remainder 41 passes the test
  \<open>remainder >= 83 / 2\<close>, so 41 mV is step 1, not step 0.
\<close>

theorem quantize_41_rounds_up: "quantize 41 = 1 \<and> quantize 41 \<noteq> 0"
  by (simp add: quantize_def step_size_83)

text \<open>
  Claim C2, amended. With step size 83 the quantizer maps 0 mV to step 0, 40 mV to
  step 0, 41 mV to step 1, 42 mV to step 1, 82 mV to step 1 and 5000 mV to step 60, and
  for every input, read as an unsigned number, the step is \<open>mv div 83\<close> plus one when
  \<open>mv mod 83 >= 41\<close>.
\<close>

theorem quantize_examples:
  "quantize 0 = 0 \<and> quantize 40 = 0 \<and> quantize 41 = 1 \<and> quantize 42 = 1 \<and>
   quantize 82 = 1 \<and> quantize 5000 = 60 \<and>
   uint (quantize mv) = uint mv div 83 + (if 41 \<le> uint mv mod 83 then 1 else 0)"
  by (simp add: quantize_uint) (simp add: quantize_def step_size_83)

text \<open>
  Claim C6. For every filtered input from 0 mV up to the maximum 5000 mV the step
  number is at most 60 and the lookup reads inside the 61-entry table. The value one
  unit above the maximum, 5001 mV, quantizes to step 60, the last valid index, and the
  lookup returns the last table entry: nothing is read past the end.
\<close>

theorem lookup_in_bounds_up_to_maximum:
  "(0 \<le> sint mv \<and> sint mv \<le> 5000 \<longrightarrow>
      quantize mv \<le> 60 \<and> PWM_Lookup_at (quantize mv) \<noteq> None) \<and>
   quantize 5001 = 60 \<and> PWM_Lookup_at (quantize 5001) = Some (last PWM_Lookup)"
proof -
  have "quantize mv \<le> 60" if "0 \<le> sint mv" "sint mv \<le> 5000"
    using that quantize_in_bounds_iff[of mv] by simp
  moreover have "quantize 5001 = 60"
    by (simp add: quantize_def step_size_83)
  moreover have "PWM_Lookup_at 60 = Some (last PWM_Lookup)"
    by (simp add: PWM_Lookup_at_def PWM_Lookup_def)
  ultimately show ?thesis
    by (simp add: PWM_Lookup_at_Some_iff)
qed

theorem lookup_in_bounds_up_to_maximum_witness:
  "0 \<le> sint (5000 :: 32 word) \<and> sint (5000 :: 32 word) \<le> 5000 \<and>
   quantize 5000 \<le> 60 \<and> PWM_Lookup_at (quantize 5000) \<noteq> None"
  using lookup_in_bounds_up_to_maximum[of 5000] by simp

text \<open>
  Claim C10, as stated, fails at -1 mV: the division and the modulo are unsigned, so
  -1 mV is read as 4294967295 and the step number is 51746594, not 1.
\<close>

theorem quantize_minus_1:
  "sint (- 1 :: 32 word) = - 1 \<and> quantize (- 1) = 51746594 \<and> quantize (- 1) \<noteq> 1"
  by (simp add: quantize_def step_size_83)

text \<open>
  Claim C10, amended. For every negative filtered millivolt value (from -82 to -1 and
  below -82 alike) the step number, an unsigned 32-bit value, is at least 25873297 and so
  lies outside the table. The step number is within 0..60, and the table lookup in
  bounds, exactly when \<open>0 <= milliVolts <= 5020\<close>.
\<close>

theorem quantize_lookup_in_bounds_iff:
  "(sint mv < 0 \<longrightarrow> 25873297 \<le> uint (quantize mv)) \<and>
   (quantize mv \<le> 60) = (0 \<le> sint mv \<and> sint mv \<le> 5020) \<and>
   (PWM_Lookup_at (quantize mv) \<noteq> None) = (0 \<le> sint mv \<and> sint mv \<le> 5020)"
  using quantize_negative[of mv] quantize_in_bounds_iff[of mv]
  by (simp add: PWM_Lookup_at_Some_iff)

theorem quantize_lookup_in_bounds_iff_witness:
  "sint (- 1 :: 32 word) < 0 \<and> 25873297 \<le> uint (quantize (- 1)) \<and>
   PWM_Lookup_at (quantize (- 1)) = None"
  using quantize_lookup_in_bounds_iff[of "- 1"] by simp

section \<open>The correction check\<close>

lemma correction_applied_step_0: "correction_applied mv 0"
proof (cases "mv > 20")
  case True
  then show ?thesis by (simp add: correction_applied_def correction_window_20)
next
  case False
  then have "mv \<le> 20" by simp
  also have "(20 :: 32 word) < 0 - 20" by simp
  finally show ?thesis by (simp add: correction_applied_def correction_window_20)
qed

lemma correction_applied_window:
  assumes "20 \<le> uint rep"
  shows "correction_applied mv rep = (uint mv < uint rep - 20 \<or> uint rep + 20 < uint mv)"
proof -
  have b: "uint rep < 2 ^ 16"
    using uint_lt2p[of rep] by simp
  have u: "uint (ucast rep :: 32 word) = uint rep"
    by (simp add: uint_up_ucast is_up)
  have p: "uint (ucast rep + 20 :: 32 word) = uint rep + 20"
    using b by (simp add: uint_word_ariths u take_bit_eq_mod)
  have m: "uint (ucast rep - 20 :: 32 word) = uint rep - 20"
    using b assms by (simp add: uint_word_ariths u take_bit_eq_mod)
  show ?thesis
    unfolding correction_applied_def correction_window_20 word_less_def p m by auto
qed

text \<open>
  Claim C1 at step 0. A filtered voltage of 10 mV quantizes to step 0, whose table
  entry is 0 mV. The lower bound \<open>0 - 20\<close> is computed in unsigned arithmetic and wraps
  to 4294967276, so \<open>10 < 4294967276\<close> makes the check report correction active,
  although 10 mV lies inside the window \<open>[-20, 20]\<close>. By \<open>correction_applied_step_0\<close> the
  same happens for every input at step 0; by \<open>correction_applied_window\<close> the check is
  the window test whenever the table entry is at least 20, that is at steps 1 to 60.
\<close>

theorem correction_active_inside_window_at_step_0:
  "quantize 10 = 0 \<and> PWM_Lookup_at (quantize 10) = Some 0 \<and>
   ucast (0 :: 16 word) - CORRECTION_WINDOW = 4294967276 \<and> correction_applied 10 0"
  by (simp add: quantize_def step_size_83 PWM_Lookup_at_def PWM_Lookup_def
      correction_applied_def correction_window_20)

section \<open>The slope reset\<close>

lemma filter_init_eq:
  "filter_init r = \<lparr> adcCounts = replicate MAX_SAMPLE r, sum_counts = push_bit DIV r,
       averageCounts = r, index = 0 \<rparr>"
  by (simp add: filter_init_def fill_loop_replicate)

lemma filter_update_reset:
  assumes "length (adcCounts st) = MAX_SAMPLE"
    and "SIGNAL_SLOPE < sint (slope_diff (averageCounts st) r)"
  shows "filter_update st r = \<lparr> adcCounts = replicate MAX_SAMPLE r, sum_counts = push_bit DIV r,
       averageCounts = r, index = 0 \<rparr>"
  using assms by (simp add: filter_update_def fill_loop_replicate)

lemma sint_abs32:
  assumes "- (2 ^ 31) < sint w"
  shows "sint (abs32 w) = \<bar>sint w\<bar>"
proof (cases "sint w < 0")
  case True
  have "sint (- w) = signed_take_bit 31 (- sint w)"
    by (simp add: sint_word_minus)
  also have "\<dots> = - sint w"
    using assms True by (intro signed_take_bit_int_eq_self) simp_all
  finally show ?thesis using True by (simp add: abs32_def)
next
  case False
  then show ?thesis by (simp add: abs32_def)
qed

lemma sint_ucast_16:
  assumes "0 \<le> sint (w :: 32 word)" and "sint w \<le> 32767"
  shows "sint (ucast w :: 16 word) = sint w"
proof -
  have r: "- (2 ^ 31) \<le> sint w" "sint w < 2 ^ 31"
    using sint_ge[of w] sint_lt[of w] by simp_all
  have "uint w = sint w mod 2 ^ 32"
    by (simp add: uint_sint take_bit_eq_mod)
  also have "\<dots> = sint w"
    using assms by (intro mod_pos_pos_trivial) simp_all
  finally have u: "uint w = sint w" .
  have "sint (ucast w :: 16 word) = signed_take_bit 15 (uint w)"
    by (simp add: sint_uint unsigned_ucast_eq signed_take_bit_take_bit)
  also have "\<dots> = uint w"
    using assms u by (intro signed_take_bit_int_eq_self) simp_all
  finally show ?thesis using u by simp
qed

lemma slope_diff_exact:
  assumes "\<bar>sint a - sint r\<bar> \<le> 32767"
  shows "sint (slope_diff a r) = \<bar>sint a - sint r\<bar>"
proof -
  have "sint (a - r) = signed_take_bit 31 (sint a - sint r)"
    by (simp add: sint_word_diff)
  also have "\<dots> = sint a - sint r"
    using assms by (intro signed_take_bit_int_eq_self) simp_all
  finally have d: "sint (a - r) = sint a - sint r" .
  have "sint (abs32 (a - r)) = \<bar>sint a - sint r\<bar>"
    using sint_abs32[of "a - r"] assms d by simp
  moreover from this have "sint (ucast (abs32 (a - r)) :: 16 word) = sint (abs32 (a - r))"
    using assms by (intro sint_ucast_16) simp_all
  ultimately show ?thesis by (simp add: slope_diff_def)
qed

text \<open>
  When the difference between the average and the new sample fits the \<open>int16\<close>
  variable and exceeds \<open>SIGNAL_SLOPE\<close>, the update is the reset.
\<close>

lemma filter_update_reset_small_difference:
  assumes "length (adcCounts st) = MAX_SAMPLE"
    and "SIGNAL_SLOPE < \<bar>sint (averageCounts st) - sint r\<bar>"
    and "\<bar>sint (averageCounts st) - sint r\<bar> \<le> 32767"
  shows "filter_update st r = \<lparr> adcCounts = replicate MAX_SAMPLE r, sum_counts = push_bit DIV r,
       averageCounts = r, index = 0 \<rparr>"
  using assms by (intro filter_update_reset) (simp_all add: slope_diff_exact)

text \<open>
  Claim C3 at a difference that does not fit 16 bits. The filter is initialised with
  the sample 0, so the average is 0; the next raw sample is 40000. The absolute
  difference 40000 exceeds \<open>SIGNAL_SLOPE = 1000\<close>, but stored in the \<open>int16\<close> variable
  \<open>diff\<close> it reads -25536, the test \<open>diff > SIGNAL_SLOPE\<close> fails, and the sliding-window
  branch runs: \<open>sum\<close> becomes 40000, the average \<open>40000 >> 7 = 312\<close> instead of 40000, and
  the cursor advances to 1 instead of being reset.
\<close>

theorem slope_reset_missed_on_large_step:
  "SIGNAL_SLOPE < sint (abs32 (averageCounts (filter_init 0) - 40000)) \<and>
   sint (slope_diff (averageCounts (filter_init 0)) 40000) = - 25536 \<and>
   averageCounts (filter_update (filter_init 0) 40000) = 312 \<and>
   averageCounts (filter_update (filter_init 0) 40000) \<noteq> 40000 \<and>
   sum_counts (filter_update (filter_init 0) 40000) = 40000 \<and>
   index (filter_update (filter_init 0) 40000) = 1"
  by (simp add: filter_init_eq filter_update_def slope_diff_def abs32_def SIGNAL_SLOPE_def
      Let_def MAX_SAMPLE_def DIV_def)

text \<open>
  For samples of any size the cursor stays inside the buffer and, modulo \<open>2^32\<close>, the
  maintained sum is the sum of the buffer.
\<close>

lemma filter_wf_init: "filter_wf (filter_init r)"
  by (simp add: filter_wf_def filter_init_eq sum_list_replicate_word MAX_SAMPLE_pos)

lemma filter_wf_update:
  assumes "filter_wf st"
  shows "filter_wf (filter_update st r)"
proof (cases "SIGNAL_SLOPE < sint (slope_diff (averageCounts st) r)")
  case True
  with assms show ?thesis
    by (simp add: filter_update_reset filter_wf_def sum_list_replicate_word MAX_SAMPLE_pos)
next
  case False
  have i: "unat (index st) < MAX_SAMPLE"
    using assms by (simp add: filter_wf_def)
  show ?thesis
    using False assms index_step[OF i]
    by (simp add: filter_update_def filter_wf_def Let_def sum_list_update_word)
qed

lemma filter_wf_run: "filter_wf (run_filter first samples)"
proof -
  have "filter_wf st \<Longrightarrow> filter_wf (foldl filter_update st samples)" for st
    by (induction samples arbitrary: st) (simp_all add: filter_wf_update)
  then show ?thesis
    by (simp add: run_filter_def filter_wf_init)
qed

lemma running_sum_modulo:
  "sum_counts (run_filter first samples) = sum_list (adcCounts (run_filter first samples))"
  using filter_wf_run[of first samples] by (simp add: filter_wf_def)

section \<open>One iteration of the loop\<close>

lemma PWM_Lookup_at_SomeD:
  "PWM_Lookup_at i = Some v \<Longrightarrow> v = PWM_Lookup ! unat i \<and> unat i < 61"
  by (simp add: PWM_Lookup_at_def length_PWM_Lookup split: if_splits)

lemma filter_primary_outputs [simp]:
  "filter is_primary (primary_outputs ch n rep) = primary_outputs ch n rep"
  by (simp add: primary_outputs_def)

lemma filter_primary_correction [simp]:
  "filter is_primary (correction_outputs mv n rep) = []"
  by (simp add: correction_outputs_def)

lemma filter_blue_outputs [simp]:
  "filter is_blue (correction_outputs mv n rep) = correction_outputs mv n rep"
  by (simp add: correction_outputs_def)

lemma filter_blue_primary [simp]:
  "filter is_blue (primary_outputs ch n rep) = []"
  by (simp add: primary_outputs_def)

lemma tick_cases:
  assumes "tick conv st result = Some (st', evs)"
  shows "PWM_Lookup_at (tick_step conv st result) = Some (PWM_Lookup ! unat (tick_step conv st result))"
    and "evs = (if tick_step conv st result \<noteq> previousNotePerfectValue st
                then primary_outputs (inputChannel st) (tick_step conv st result)
                       (PWM_Lookup ! unat (tick_step conv st result))
                else []) @
               [LCD_mV (tick_milliVolts conv st result)] @
               correction_outputs (tick_milliVolts conv st result) (tick_step conv st result)
                 (PWM_Lookup ! unat (tick_step conv st result))"
    and "previousNotePerfectValue st' = tick_step conv st result"
    and "filt st' = filter_update (filt st) result"
    and "inputChannel st' = inputChannel st"
  using assms
  by (auto simp: tick_def tick_step_def tick_milliVolts_def Let_def
      split: option.splits if_splits dest: PWM_Lookup_at_SomeD)

lemma min_step_10:
  "PWM_Lookup ! min (unat (n :: 32 word)) 10 =
     (if n > 10 then PWM_Lookup ! 10 else PWM_Lookup ! unat n)"
  by (auto simp: word_less_nat_alt min_def)

lemma average_same_sample:
  "sample_in_range s \<Longrightarrow> averageCounts (filter_update (filter_init s) s) = s"
  using settled_update[OF _ settled_init, of s] by (simp add: settled_def)

lemma tick_1000:
  "tick (\<lambda>c. c) (main_init 1000) 1000 =
     Some (\<lparr> filt = filter_update (filter_init 1000) 1000, previousNotePerfectValue = 12,
              inputChannel = IN_A \<rparr>,
           [PWM_WriteCompare 1000, PWM_Red_WriteCompare 1000, LCD_DAC 1000, LCD_Step 12,
            LCD_mV 1000, Control_Reg_Or BLUE_CTRL, PWM_Blue_Stop, Control_Reg_AndNot BLUE_CTRL])"
proof -
  have a: "averageCounts (filter_update (filter_init 1000) 1000) = 1000"
    by (rule average_same_sample) (simp add: sample_in_range_def)
  have q: "quantize 1000 = 12"
    by (simp add: quantize_def step_size_83)
  have l: "PWM_Lookup_at 12 = Some 1000"
    by (simp add: PWM_Lookup_at_def PWM_Lookup_def)
  show ?thesis
    by (simp add: tick_def main_init_def a q l Let_def primary_outputs_def correction_outputs_def
        correction_applied_def correction_window_20 IN_A_def IN_B_def)
qed

lemma tick_1030:
  "tick (\<lambda>c. c) (main_init 1030) 1030 =
     Some (\<lparr> filt = filter_update (filter_init 1030) 1030, previousNotePerfectValue = 12,
              inputChannel = IN_A \<rparr>,
           [PWM_WriteCompare 1000, PWM_Red_WriteCompare 1000, LCD_DAC 1000, LCD_Step 12,
            LCD_mV 1030, PWM_Blue_WriteCompare 833, PWM_Blue_Start])"
proof -
  have a: "averageCounts (filter_update (filter_init 1030) 1030) = 1030"
    by (rule average_same_sample) (simp add: sample_in_range_def)
  have q: "quantize 1030 = 12"
    by (simp add: quantize_def step_size_83)
  have l: "PWM_Lookup_at 12 = Some 1000"
    by (simp add: PWM_Lookup_at_def PWM_Lookup_def)
  have t: "PWM_Lookup ! 10 = 833"
    by (simp add: PWM_Lookup_def)
  show ?thesis
    by (simp add: tick_def main_init_def a q l t Let_def primary_outputs_def correction_outputs_def
        correction_applied_def correction_window_20 IN_A_def IN_B_def)
qed

text \<open>
  Claim C9. In every iteration that completes, the calls that drive the blue
  indicator are these: when the correction check is positive, the compare value is set
  to the table entry at \<open>min (step, 10)\<close> and the blue PWM is started; when it is
  negative, the blue PWM is reset and stopped through the control register and no compare
  value is written, which turns the indicator off.
\<close>

theorem correction_indicator_magnitude:
  assumes "tick conv st result = Some (st', evs)"
  shows "filter is_blue evs =
           (if correction_applied (tick_milliVolts conv st result)
                 (PWM_Lookup ! unat (tick_step conv st result))
            then [PWM_Blue_WriteCompare (PWM_Lookup ! min (unat (tick_step conv st result)) 10),
                  PWM_Blue_Start]
            else [Control_Reg_Or BLUE_CTRL, PWM_Blue_Stop, Control_Reg_AndNot BLUE_CTRL])"
  unfolding tick_cases(2)[OF assms]
  by (simp add: correction_outputs_def min_step_10)

theorem correction_indicator_magnitude_witness:
  "tick (\<lambda>c. c) (main_init 1030) 1030 =
     Some (\<lparr> filt = filter_update (filter_init 1030) 1030, previousNotePerfectValue = 12,
              inputChannel = IN_A \<rparr>,
           [PWM_WriteCompare 1000, PWM_Red_WriteCompare 1000, LCD_DAC 1000, LCD_Step 12,
            LCD_mV 1030, PWM_Blue_WriteCompare 833, PWM_Blue_Start]) \<and>
   filter is_blue
      [PWM_WriteCompare 1000, PWM_Red_WriteCompare 1000, LCD_DAC 1000, LCD_Step 12,
       LCD_mV 1030, PWM_Blue_WriteCompare 833, PWM_Blue_Start] =
     (if correction_applied (tick_milliVolts (\<lambda>c. c) (main_init 1030) 1030)
           (PWM_Lookup ! unat (tick_step (\<lambda>c. c) (main_init 1030) 1030))
      then [PWM_Blue_WriteCompare
              (PWM_Lookup ! min (unat (tick_step (\<lambda>c. c) (main_init 1030) 1030)) 10),
            PWM_Blue_Start]
      else [Control_Reg_Or BLUE_CTRL, PWM_Blue_Stop, Control_Reg_AndNot BLUE_CTRL])"
  using correction_indicator_magnitude[OF tick_1030] tick_1030 by blast

section \<open>The whole loop body\<close>

lemma button0_block_core:
  "filt (core (fst (button0_block a st))) = filt (core st) \<and>
   previousNotePerfectValue (core (fst (button0_block a st))) = previousNotePerfectValue (core st)"
  by (simp add: button0_block_def)

lemma button1_block_core:
  "filt (core (fst (button1_block a st))) = filt (core st) \<and>
   previousNotePerfectValue (core (fst (button1_block a st))) = previousNotePerfectValue (core st)"
  by (simp add: button1_block_def)

lemma capsense_block_core:
  "filt (core (fst (capsense_block inp st))) = filt (core st) \<and>
   previousNotePerfectValue (core (fst (capsense_block inp st))) =
     previousNotePerfectValue (core st)"
  using button0_block_core[of "button0 inp" st]
    button1_block_core[of "button1 inp" "fst (button0_block (button0 inp) st)"]
  by (simp add: capsense_block_def split_beta Let_def)

lemma button0_block_primary: "filter is_primary (snd (button0_block a st)) = []"
  by (simp add: button0_block_def)

lemma button1_block_primary: "filter is_primary (snd (button1_block a st)) = []"
  by (simp add: button1_block_def)

lemma capsense_block_primary:
  "filter is_primary (snd (capsense_block inp st)) =
     (if \<not> busy inp \<and> button2 inp then [PWM_Red_WriteCompare 0, PWM_Green_WriteCompare 0] else [])"
  by (simp add: capsense_block_def split_beta Let_def button0_block_primary
      button1_block_primary button2_block_def)

lemma tick_step_filt:
  "filt c = filt c' \<Longrightarrow> tick_step conv c result = tick_step conv c' result"
  by (simp add: tick_step_def tick_milliVolts_def)

lemma tick_milliVolts_filt:
  "filt c = filt c' \<Longrightarrow> tick_milliVolts conv c result = tick_milliVolts conv c' result"
  by (simp add: tick_milliVolts_def)

lemma loop_iteration_cases:
  assumes "loop_iteration conv inp st result = Some (st', evs)"
  shows "\<exists>evs2. tick conv (core (fst (capsense_block inp st))) result = Some (core st', evs2) \<and>
           evs = snd (capsense_block inp st) @ evs2"
  using assms
  by (auto simp: loop_iteration_def split_beta Let_def split: option.splits)

lemma capsense_block_set:
  "PWM_WriteCompare v \<notin> set (snd (capsense_block inp st)) \<and>
   LCD_DAC v \<notin> set (snd (capsense_block inp st)) \<and>
   LCD_Step w \<notin> set (snd (capsense_block inp st)) \<and>
   LCD_mV w \<notin> set (snd (capsense_block inp st)) \<and>
   (PWM_Red_WriteCompare v \<in> set (snd (capsense_block inp st))) =
     (v = 0 \<and> \<not> busy inp \<and> button2 inp) \<and>
   (PWM_Green_WriteCompare v \<in> set (snd (capsense_block inp st))) =
     (v = 0 \<and> \<not> busy inp \<and> button2 inp)"
  by (auto simp: capsense_block_def split_beta Let_def button0_block_def button1_block_def
      button2_block_def)

lemma average_same_sample_twice:
  assumes "sample_in_range s"
  shows "averageCounts (filter_update (filter_update (filter_init s) s) s) = s"
  using settled_update[OF assms settled_update[OF assms settled_init]]
  by (simp add: settled_def)

lemma iteration_first:
  "loop_iteration (\<lambda>c. c)
     \<lparr> busy = False, button0 = False, button1 = False, button2 = False \<rparr>
     (main_start 1000) 1000 =
   Some (\<lparr> previousButton0 = OFF, previousButton1 = OFF,
           core = \<lparr> filt = filter_update (filter_init 1000) 1000,
                    previousNotePerfectValue = 12, inputChannel = IN_A \<rparr> \<rparr>,
         [CapSense_UpdateEnabledBaselines, CapSense_ScanEnabledWidgets,
          PWM_WriteCompare 1000, PWM_Red_WriteCompare 1000, LCD_DAC 1000, LCD_Step 12,
          LCD_mV 1000, Control_Reg_Or BLUE_CTRL, PWM_Blue_Stop, Control_Reg_AndNot BLUE_CTRL])"
  by (simp add: loop_iteration_def capsense_block_def button0_block_def button1_block_def
      button2_block_def main_start_def tick_1000)

lemma tick_1000_again:
  "tick id
     \<lparr> filt = filter_update (filter_init 1000) 1000, previousNotePerfectValue = 12,
       inputChannel = IN_A \<rparr> 1000 =
   Some (\<lparr> filt = filter_update (filter_update (filter_init 1000) 1000) 1000,
           previousNotePerfectValue = 12, inputChannel = IN_A \<rparr>,
         [LCD_mV 1000, Control_Reg_Or BLUE_CTRL, PWM_Blue_Stop, Control_Reg_AndNot BLUE_CTRL])"
proof -
  have a: "averageCounts (filter_update (filter_update (filter_init 1000) 1000) 1000) = 1000"
    by (rule average_same_sample_twice) (simp add: sample_in_range_def)
  have q: "quantize 1000 = 12"
    by (simp add: quantize_def step_size_83)
  have l: "PWM_Lookup_at 12 = Some 1000"
    by (simp add: PWM_Lookup_at_def PWM_Lookup_def)
  show ?thesis
    by (simp add: tick_def a q l Let_def correction_outputs_def
        correction_applied_def correction_window_20)
qed

lemma iteration_button2:
  "loop_iteration id
     \<lparr> busy = False, button0 = False, button1 = False, button2 = True \<rparr>
     \<lparr> previousButton0 = OFF, previousButton1 = OFF,
       core = \<lparr> filt = filter_update (filter_init 1000) 1000,
                previousNotePerfectValue = 12, inputChannel = IN_A \<rparr> \<rparr> 1000 =
   Some (\<lparr> previousButton0 = OFF, previousButton1 = OFF,
           core = \<lparr> filt = filter_update (filter_update (filter_init 1000) 1000) 1000,
                    previousNotePerfectValue = 12, inputChannel = IN_A \<rparr> \<rparr>,
         [CapSense_UpdateEnabledBaselines,
          PWM_Blue_WriteCompare 5000, PWM_Blue_Start, PWM_Red_WriteCompare 0,
          PWM_Green_WriteCompare 0, CapSense_ScanEnabledWidgets,
          LCD_mV 1000, Control_Reg_Or BLUE_CTRL, PWM_Blue_Stop, Control_Reg_AndNot BLUE_CTRL])"
  by (simp add: loop_iteration_def capsense_block_def button0_block_def button1_block_def
      button2_block_def tick_1000_again)

lemma step_1000_again:
  "tick_step id
     \<lparr> filt = filter_update (filter_init 1000) 1000, previousNotePerfectValue = 12,
       inputChannel = IN_A \<rparr> 1000 = 12"
proof -
  have a: "averageCounts (filter_update (filter_update (filter_init 1000) 1000) 1000) = 1000"
    by (rule average_same_sample_twice) (simp add: sample_in_range_def)
  show ?thesis
    by (simp add: tick_step_def tick_milliVolts_def a quantize_def step_size_83)
qed

text \<open>
  Claim C8, as stated, fails on the whole iteration. Take the state after a first
  iteration at a constant 1000 counts, with a converter that maps counts to the same
  number of millivolts (step 12), and a second iteration with the same sample while
  button 2 is touched and CapSense is idle. The step number is 12 again, yet
  the touch-button block calls \<open>PWM_Red_WriteCompare(0)\<close> and
  \<open>PWM_Green_WriteCompare(0)\<close>: the LED compare values are written with the step
  unchanged.
\<close>

theorem button2_writes_led_with_step_unchanged:
  "loop_iteration id
     \<lparr> busy = False, button0 = False, button1 = False, button2 = True \<rparr>
     \<lparr> previousButton0 = OFF, previousButton1 = OFF,
       core = \<lparr> filt = filter_update (filter_init 1000) 1000,
                previousNotePerfectValue = 12, inputChannel = IN_A \<rparr> \<rparr> 1000 =
   Some (\<lparr> previousButton0 = OFF, previousButton1 = OFF,
           core = \<lparr> filt = filter_update (filter_update (filter_init 1000) 1000) 1000,
                    previousNotePerfectValue = 12, inputChannel = IN_A \<rparr> \<rparr>,
         [CapSense_UpdateEnabledBaselines,
          PWM_Blue_WriteCompare 5000, PWM_Blue_Start, PWM_Red_WriteCompare 0,
          PWM_Green_WriteCompare 0, CapSense_ScanEnabledWidgets,
          LCD_mV 1000, Control_Reg_Or BLUE_CTRL, PWM_Blue_Stop, Control_Reg_AndNot BLUE_CTRL]) \<and>
   tick_step id
     \<lparr> filt = filter_update (filter_init 1000) 1000, previousNotePerfectValue = 12,
       inputChannel = IN_A \<rparr> 1000 = 12 \<and>
   filter is_primary
     [CapSense_UpdateEnabledBaselines,
      PWM_Blue_WriteCompare 5000, PWM_Blue_Start, PWM_Red_WriteCompare 0,
      PWM_Green_WriteCompare 0, CapSense_ScanEnabledWidgets,
      LCD_mV 1000, Control_Reg_Or BLUE_CTRL, PWM_Blue_Stop, Control_Reg_AndNot BLUE_CTRL] =
     [PWM_Red_WriteCompare 0, PWM_Green_WriteCompare 0]"
  using iteration_button2 step_1000_again by simp


text \<open>
  Claim C8, amended. In every iteration that completes, whatever the buttons do: the
  PWM compare value and the DAC and step fields of the display are written if and only if
  the step number differs from \<open>previousNotePerfectValue\<close>, and then with the table entry
  and the step number of this iteration; the LED compare value of a channel is written if
  and only if the step number differs and that channel is the active one, or button 2 is
  touched while CapSense is idle (the demo action, which writes 0). With the step number
  unchanged, the only primary outputs written are those two demo writes, and none when
  button 2 is not touched or CapSense is busy. In every iteration the millivolts are
  printed and the correction branch runs last, and \<open>previousNotePerfectValue\<close> ends up
  equal to the step number.
\<close>

theorem step_change_gates_pipeline_outputs:
  assumes "loop_iteration conv inp st result = Some (st', evs)"
  shows "(\<exists>v. PWM_WriteCompare v \<in> set evs) =
           (tick_step conv (core st) result \<noteq> previousNotePerfectValue (core st)) \<and>
         (\<exists>v. LCD_DAC v \<in> set evs) =
           (tick_step conv (core st) result \<noteq> previousNotePerfectValue (core st)) \<and>
         (\<exists>v. LCD_Step v \<in> set evs) =
           (tick_step conv (core st) result \<noteq> previousNotePerfectValue (core st)) \<and>
         (\<exists>v. PWM_Red_WriteCompare v \<in> set evs) =
           (tick_step conv (core st) result \<noteq> previousNotePerfectValue (core st) \<and>
              inputChannel (core st') = IN_A \<or>
            \<not> busy inp \<and> button2 inp) \<and>
         (\<exists>v. PWM_Green_WriteCompare v \<in> set evs) =
           (tick_step conv (core st) result \<noteq> previousNotePerfectValue (core st) \<and>
              inputChannel (core st') = IN_B \<or>
            \<not> busy inp \<and> button2 inp) \<and>
         (tick_step conv (core st) result \<noteq> previousNotePerfectValue (core st) \<longrightarrow>
            PWM_WriteCompare (PWM_Lookup ! unat (tick_step conv (core st) result)) \<in> set evs \<and>
            LCD_DAC (PWM_Lookup ! unat (tick_step conv (core st) result)) \<in> set evs \<and>
            LCD_Step (tick_step conv (core st) result) \<in> set evs) \<and>
         (tick_step conv (core st) result = previousNotePerfectValue (core st) \<longrightarrow>
            filter is_primary evs =
              (if \<not> busy inp \<and> button2 inp
               then [PWM_Red_WriteCompare 0, PWM_Green_WriteCompare 0] else [])) \<and>
         previousNotePerfectValue (core st') = tick_step conv (core st) result \<and>
         (\<exists>pre. evs = pre @ [LCD_mV (tick_milliVolts conv (core st) result)] @
            (if correction_applied (tick_milliVolts conv (core st) result)
                  (PWM_Lookup ! unat (tick_step conv (core st) result))
             then [PWM_Blue_WriteCompare
                     (PWM_Lookup ! min (unat (tick_step conv (core st) result)) 10),
                   PWM_Blue_Start]
             else [Control_Reg_Or BLUE_CTRL, PWM_Blue_Stop, Control_Reg_AndNot BLUE_CTRL]))"
proof -
  let ?st1 = "fst (capsense_block inp st)"
  let ?evs1 = "snd (capsense_block inp st)"
  obtain evs2 where t: "tick conv (core ?st1) result = Some (core st', evs2)"
    and evs: "evs = ?evs1 @ evs2"
    using loop_iteration_cases[OF assms] by blast
  have f: "filt (core ?st1) = filt (core st)"
    and p: "previousNotePerfectValue (core ?st1) = previousNotePerfectValue (core st)"
    using capsense_block_core[of inp st] by simp_all
  have s: "tick_step conv (core ?st1) result = tick_step conv (core st) result"
    by (rule tick_step_filt[OF f])
  have m: "tick_milliVolts conv (core ?st1) result = tick_milliVolts conv (core st) result"
    by (rule tick_milliVolts_filt[OF f])
  have ch: "inputChannel (core ?st1) = inputChannel (core st')"
    using tick_cases(5)[OF t] by simp
  note c = tick_cases[OF t, unfolded s m p ch]
  note b = capsense_block_set[of _ inp st]
  have last: "\<exists>pre. evs = pre @ [LCD_mV (tick_milliVolts conv (core st) result)] @
            (if correction_applied (tick_milliVolts conv (core st) result)
                  (PWM_Lookup ! unat (tick_step conv (core st) result))
             then [PWM_Blue_WriteCompare
                     (PWM_Lookup ! min (unat (tick_step conv (core st) result)) 10),
                   PWM_Blue_Start]
             else [Control_Reg_Or BLUE_CTRL, PWM_Blue_Stop, Control_Reg_AndNot BLUE_CTRL])"
    unfolding evs c(2) by (simp add: correction_outputs_def min_step_10 flip: append_assoc)
  show ?thesis
  proof (cases "tick_step conv (core st) result \<noteq> previousNotePerfectValue (core st)")
    case True
    have "set evs = set ?evs1 \<union> set (primary_outputs (inputChannel (core st'))
            (tick_step conv (core st) result)
            (PWM_Lookup ! unat (tick_step conv (core st) result))) \<union>
          {LCD_mV (tick_milliVolts conv (core st) result)} \<union>
          set (correction_outputs (tick_milliVolts conv (core st) result)
            (tick_step conv (core st) result)
            (PWM_Lookup ! unat (tick_step conv (core st) result)))"
      unfolding evs c(2) using True by auto
    then show ?thesis
      using True last c(3) b
      by (auto simp: primary_outputs_def correction_outputs_def IN_A_def IN_B_def)
  next
    case False
    have fp: "filter is_primary evs = filter is_primary ?evs1"
      unfolding evs c(2) using False by simp
    have "set evs = set ?evs1 \<union> {LCD_mV (tick_milliVolts conv (core st) result)} \<union>
          set (correction_outputs (tick_milliVolts conv (core st) result)
            (tick_step conv (core st) result)
            (PWM_Lookup ! unat (tick_step conv (core st) result)))"
      unfolding evs c(2) using False by auto
    then show ?thesis
      using False last c(3) b fp
      by (auto simp: correction_outputs_def capsense_block_primary)
  qed
qed

theorem step_change_gates_pipeline_outputs_witness:
  "(\<exists>v. PWM_WriteCompare v \<in> set
       [CapSense_UpdateEnabledBaselines, CapSense_ScanEnabledWidgets,
        PWM_WriteCompare 1000, PWM_Red_WriteCompare 1000, LCD_DAC 1000, LCD_Step 12,
        LCD_mV 1000, Control_Reg_Or BLUE_CTRL, PWM_Blue_Stop, Control_Reg_AndNot BLUE_CTRL]) =
     (tick_step (\<lambda>c. c) (core (main_start 1000)) 1000 \<noteq>
      previousNotePerfectValue (core (main_start 1000))) \<and>
   tick_step id
     \<lparr> filt = filter_update (filter_init 1000) 1000, previousNotePerfectValue = 12,
       inputChannel = IN_A \<rparr> 1000 = 12 \<and>
   filter is_primary
     [CapSense_UpdateEnabledBaselines,
      PWM_Blue_WriteCompare 5000, PWM_Blue_Start, PWM_Red_WriteCompare 0,
      PWM_Green_WriteCompare 0, CapSense_ScanEnabledWidgets,
      LCD_mV 1000, Control_Reg_Or BLUE_CTRL, PWM_Blue_Stop, Control_Reg_AndNot BLUE_CTRL] =
     [PWM_Red_WriteCompare 0, PWM_Green_WriteCompare 0]"
proof -
  note first = step_change_gates_pipeline_outputs[OF iteration_first]
  note again = step_change_gates_pipeline_outputs[OF iteration_button2]
  have changed:
    "(\<exists>v. PWM_WriteCompare v \<in> set
         [CapSense_UpdateEnabledBaselines, CapSense_ScanEnabledWidgets,
          PWM_WriteCompare 1000, PWM_Red_WriteCompare 1000, LCD_DAC 1000, LCD_Step 12,
          LCD_mV 1000, Control_Reg_Or BLUE_CTRL, PWM_Blue_Stop, Control_Reg_AndNot BLUE_CTRL]) =
       (tick_step (\<lambda>c. c) (core (main_start 1000)) 1000 \<noteq>
        previousNotePerfectValue (core (main_start 1000)))"
    using first by blast
  have unchanged:
    "tick_step id
       (core \<lparr> previousButton0 = OFF, previousButton1 = OFF,
               core = \<lparr> filt = filter_update (filter_init 1000) 1000,
                        previousNotePerfectValue = 12, inputChannel = IN_A \<rparr> \<rparr>) 1000 =
     previousNotePerfectValue
       (core \<lparr> previousButton0 = OFF, previousButton1 = OFF,
               core = \<lparr> filt = filter_update (filter_init 1000) 1000,
                        previousNotePerfectValue = 12, inputChannel = IN_A \<rparr> \<rparr>) \<longrightarrow>
     filter is_primary
       [CapSense_UpdateEnabledBaselines,
        PWM_Blue_WriteCompare 5000, PWM_Blue_Start, PWM_Red_WriteCompare 0,
        PWM_Green_WriteCompare 0, CapSense_ScanEnabledWidgets,
        LCD_mV 1000, Control_Reg_Or BLUE_CTRL, PWM_Blue_Stop, Control_Reg_AndNot BLUE_CTRL] =
       (if \<not> busy \<lparr> busy = False, button0 = False, button1 = False, button2 = True \<rparr> \<and>
           button2 \<lparr> busy = False, button0 = False, button1 = False, button2 = True \<rparr>
        then [PWM_Red_WriteCompare 0, PWM_Green_WriteCompare 0] else [])"
    using again by blast
  from changed unchanged step_1000_again show ?thesis
    by simp
qed

end
